theory Spec2Isabelle
  imports Complex_Main "HOL-Library.Stream"
begin

section \<open>The particle system of app.js\<close>

text \<open>
  The program keeps three variables of its own: \<open>heartCenter\<close>, \<open>particles\<close> and
  \<open>heartActive\<close>. Numbers are JavaScript doubles; they are modelled as exact reals, so
  every statement below is about the arithmetic the code writes down, not about its
  rounding. \<open>Math.random()\<close> is modelled as reading the head of a stream of draws that
  is threaded through the state. The canvas context, the button and the class list are
  only written by the program and never read back, so they are not part of the state:
  \<open>draw\<close>, the clearing \<open>fillRect\<close>, the canvas size and scale, the button text and
  styles (also those set by the timer of \<open>activateHeart\<close>) are left out. What the program
  reads from the page (\<open>getBoundingClientRect\<close> of the heart container) is an argument
  of the function that reads it. \<open>requestAnimationFrame\<close> only schedules the next call of
  \<open>animateParticles\<close>; one call is one frame.
\<close>

subsection \<open>Data\<close>

text \<open>A pair of coordinates \<open>{x, y}\<close>: the velocity of a particle and the heart centre.\<close>

record vec =
  x :: real
  y :: real

text \<open>
  An instance of class \<open>Particle\<close>. It has the fields \<open>x\<close> and \<open>y\<close> of its own, so
  the record extends \<open>vec\<close>; \<open>size\<close> is written \<open>size_p\<close>.
\<close>

record particle = vec +
  size_p :: real
  color :: string
  alpha :: real
  speed :: real
  velocity :: vec
  gravity :: real
  drag :: real

text \<open>The rectangle returned by \<open>getBoundingClientRect\<close>; \<open>top\<close> is written \<open>top_r\<close>.\<close>

record rect =
  left :: real
  top_r :: real
  width :: real
  height :: real

record state =
  heartCenter :: vec
  particles :: "particle list"
  heartActive :: bool
  rng :: "real stream"

datatype error = TypeError

subsection \<open>Random draws\<close>

definition Math_random :: "real stream \<Rightarrow> real \<times> real stream" where
  "Math_random r = (shd r, stl r)"

subsection \<open>Class Particle\<close>

text \<open>The constructor draws the size, then the speed, then the angle.\<close>

definition Particle :: "real \<Rightarrow> real \<Rightarrow> string \<Rightarrow> real stream \<Rightarrow> particle \<times> real stream" where
  "Particle x0 y0 c r =
     (let (u1, r1) = Math_random r;
          size0 = u1 * 1.5 + 0.5;
          (u2, r2) = Math_random r1;
          speed0 = u2 * 0.4 + 0.1;
          (u3, r3) = Math_random r2;
          angle = u3 * pi * 2
      in (\<lparr>x = x0, y = y0, size_p = size0, color = c, alpha = 1, speed = speed0,
           velocity = \<lparr>x = cos angle * speed0 * 2, y = sin angle * speed0 * 2\<rparr>,
           gravity = 0.003, drag = 0.99\<rparr>, r3))"

text \<open>Method \<open>update\<close>, one assignment after the other.\<close>

definition update :: "particle \<Rightarrow> particle" where
  "update p =
     (let p1 = p\<lparr>velocity := (velocity p)\<lparr>x := x (velocity p) * drag p\<rparr>\<rparr>;
          p2 = p1\<lparr>velocity := (velocity p1)\<lparr>y := y (velocity p1) * drag p1\<rparr>\<rparr>;
          p3 = p2\<lparr>velocity := (velocity p2)\<lparr>y := y (velocity p2) + gravity p2\<rparr>\<rparr>;
          p4 = p3\<lparr>x := x p3 + x (velocity p3)\<rparr>;
          p5 = p4\<lparr>y := y p4 + y (velocity p4)\<rparr>;
          p6 = p5\<lparr>alpha := alpha p5 - 0.005\<rparr>
      in p6\<lparr>size_p := size_p p6 * 0.995\<rparr>)"

subsection \<open>The animation frame\<close>

text \<open>\<open>particles.splice(i, 1)\<close>.\<close>

definition splice :: "'a list \<Rightarrow> nat \<Rightarrow> 'a list" where
  "splice ps i = take i ps @ drop (Suc i) ps"

text \<open>
  The two loops of \<open>animateParticles\<close> run the index from \<open>particles.length - 1\<close> down
  to 0. The first argument of the model is the index plus one, so that the loop test
  \<open>i >= 0\<close> is the pattern \<open>Suc i\<close>. Reading \<open>particles[i]\<close> beyond the end gives
  \<open>undefined\<close>, and the method call on it throws.
\<close>

fun active_loop :: "nat \<Rightarrow> particle list \<Rightarrow> error + particle list" where
  "active_loop 0 ps = Inr ps"
| "active_loop (Suc i) ps =
     (if i < length ps then
        (let p = update (ps ! i);
             ps1 = ps[i := p]
         in if alpha p \<le> 0 \<or> size_p p \<le> 0.1 then active_loop i (splice ps1 i)
            else active_loop i ps1)
      else Inl TypeError)"

fun drain_loop :: "nat \<Rightarrow> particle list \<Rightarrow> error + particle list" where
  "drain_loop 0 ps = Inr ps"
| "drain_loop (Suc i) ps =
     (if i < length ps then
        (let ps1 = ps[i := (ps ! i)\<lparr>alpha := alpha (ps ! i) - 0.01\<rparr>];
             ps2 = ps1[i := update (ps1 ! i)]
         in if alpha (ps2 ! i) \<le> 0 then drain_loop i (splice ps2 i)
            else drain_loop i ps2)
      else Inl TypeError)"

text \<open>The block guarded by \<open>Math.random() < 0.6\<close> at the head of the active branch.\<close>

definition ambient_spawn :: "state \<Rightarrow> state" where
  "ambient_spawn st =
     (let (u, r1) = Math_random (rng st)
      in if u < 0.6 then
           (let (v, r2) = Math_random r1;
                particleColor = (if v < 0.9 then ''rgba(255, 107, 157, 1)''
                                 else ''rgba(255, 215, 0, 1)'');
                (newParticle, r3) =
                  Particle (x (heartCenter st)) (y (heartCenter st)) particleColor r2
            in st\<lparr>particles := particles st @ [newParticle], rng := r3\<rparr>)
         else st\<lparr>rng := r1\<rparr>)"

definition animateParticles :: "state \<Rightarrow> error + state" where
  "animateParticles st =
     (if heartActive st then
        (let st1 = ambient_spawn st
         in case active_loop (length (particles st1)) (particles st1) of
              Inl e \<Rightarrow> Inl e
            | Inr ps \<Rightarrow> Inr (st1\<lparr>particles := ps\<rparr>))
      else
        (case drain_loop (length (particles st)) (particles st) of
           Inl e \<Rightarrow> Inl e
         | Inr ps \<Rightarrow> Inr (st\<lparr>particles := ps\<rparr>)))"

subsection \<open>Resize and activation\<close>

text \<open>
  \<open>resizeCanvas\<close> writes the canvas size and scale, and sets the heart centre from the
  rectangle of the heart container, which is its argument here.
\<close>

definition resizeCanvas :: "rect \<Rightarrow> state \<Rightarrow> state" where
  "resizeCanvas heartRect st =
     (let c1 = (heartCenter st)\<lparr>x := left heartRect + width heartRect / 2\<rparr>;
          c2 = c1\<lparr>y := top_r heartRect + height heartRect / 2\<rparr>
      in st\<lparr>heartCenter := c2\<rparr>)"

text \<open>
  The burst loop of \<open>activateHeart\<close>; the first argument is the number of iterations
  still to run.
\<close>

fun burst_loop :: "nat \<Rightarrow> state \<Rightarrow> state" where
  "burst_loop 0 st = st"
| "burst_loop (Suc n) st =
     (let (v, r1) = Math_random (rng st);
          particleColor = (if v < 0.7 then ''rgba(255, 107, 157, 1)''
                           else ''rgba(255, 215, 0, 1)'');
          (p, r2) = Particle (x (heartCenter st)) (y (heartCenter st)) particleColor r1
      in burst_loop n (st\<lparr>particles := particles st @ [p], rng := r2\<rparr>))"

definition activateHeart :: "rect \<Rightarrow> state \<Rightarrow> state" where
  "activateHeart heartRect st =
     (if \<not> heartActive st then
        burst_loop 80 (resizeCanvas heartRect (st\<lparr>heartActive := True\<rparr>))
      else st\<lparr>heartActive := False\<rparr>)"

subsection \<open>Runs of the program\<close>

text \<open>
  The state at load time, for a random source \<open>r\<close>, and the states the handlers can
  lead to: a frame, a resize with any layout, a click with any layout. Every draw of
  \<open>Math.random\<close> lies in \<open>[0, 1)\<close>.
\<close>

definition init :: "real stream \<Rightarrow> state" where
  "init r = \<lparr>heartCenter = \<lparr>x = 0, y = 0\<rparr>, particles = [], heartActive = False, rng = r\<rparr>"

inductive reachable :: "state \<Rightarrow> bool" where
  reach_init: "\<forall>u \<in> sset r. 0 \<le> u \<and> u < 1 \<Longrightarrow> reachable (init r)"
| reach_frame: "reachable st \<Longrightarrow> animateParticles st = Inr st' \<Longrightarrow> reachable st'"
| reach_resize: "reachable st \<Longrightarrow> reachable (resizeCanvas heartRect st)"
| reach_click: "reachable st \<Longrightarrow> reachable (activateHeart heartRect st)"

text \<open>\<open>n\<close> frames in a row, with no event in between.\<close>

fun frames :: "nat \<Rightarrow> state \<Rightarrow> error + state" where
  "frames 0 st = Inr st"
| "frames (Suc n) st =
     (case animateParticles st of Inl e \<Rightarrow> Inl e | Inr st' \<Rightarrow> frames n st')"

subsection \<open>A concrete run\<close>

text \<open>
  The heart container at left 100, top 50, 40 wide and 40 high; a random source whose
  every draw is 1/2; the state after the first click (\<open>lit0\<close>) and after the second
  (\<open>off0\<close>); the particle the burst makes from these draws.
\<close>

definition heartRect0 :: rect where
  "heartRect0 = \<lparr>left = 100, top_r = 50, width = 40, height = 40\<rparr>"

definition lit0 :: state where
  "lit0 = activateHeart heartRect0 (init (sconst (1 / 2)))"

definition off0 :: state where
  "off0 = activateHeart heartRect0 lit0"

definition burst0 :: particle where
  "burst0 = \<lparr>x = 120, y = 70, size_p = 1.25, color = ''rgba(255, 107, 157, 1)'', alpha = 1,
             speed = 0.3, velocity = \<lparr>x = - 0.6, y = 0\<rparr>, gravity = 0.003, drag = 0.99\<rparr>"

text \<open>
  The proof invariant of a particle: it has lived some number \<open>k\<close> of frames, each of
  which took at least 0.005 from its opacity and the factor 0.995 from its size, which
  was at least 0.5 at first.
\<close>

definition aged :: "particle \<Rightarrow> bool" where
  "aged p = (\<exists>k::nat. alpha p \<le> 1 - real k / 200 \<and> 0.5 * 0.995 ^ k \<le> size_p p)"

section \<open>The loops as list operations\<close>

lemma active_loop_filter:
  "n \<le> length ps \<Longrightarrow>
   active_loop n ps =
     Inr (filter (\<lambda>p. \<not> (alpha p \<le> 0 \<or> size_p p \<le> 0.1)) (map update (take n ps)) @ drop n ps)"
proof (induction n arbitrary: ps)
  case 0
  then show ?case by simp
next
  case (Suc n)
  then have n: "n < length ps" by simp
  let ?p = "update (ps ! n)"
  let ?ps1 = "ps[n := ?p]"
  have tk: "take (Suc n) ps = take n ps @ [ps ! n]"
    using n by (simp add: take_Suc_conv_app_nth)
  show ?case
  proof (cases "alpha ?p \<le> 0 \<or> size_p ?p \<le> 0.1")
    case True
    have len: "n \<le> length (splice ?ps1 n)"
      using n by (simp add: splice_def)
    have "active_loop (Suc n) ps = active_loop n (splice ?ps1 n)"
      using n True by (simp add: Let_def)
    also have "\<dots> = Inr (filter (\<lambda>p. \<not> (alpha p \<le> 0 \<or> size_p p \<le> 0.1))
                          (map update (take n (splice ?ps1 n))) @ drop n (splice ?ps1 n))"
      by (rule Suc.IH [OF len])
    also have "take n (splice ?ps1 n) = take n ps"
      using n by (simp add: splice_def)
    also have "drop n (splice ?ps1 n) = drop (Suc n) ps"
      using n by (simp add: splice_def)
    finally show ?thesis
      using True by (simp add: tk)
  next
    case False
    have len: "n \<le> length ?ps1"
      using n by simp
    have "active_loop (Suc n) ps = active_loop n ?ps1"
      using n False by (simp add: Let_def)
    also have "\<dots> = Inr (filter (\<lambda>p. \<not> (alpha p \<le> 0 \<or> size_p p \<le> 0.1))
                          (map update (take n ?ps1)) @ drop n ?ps1)"
      by (rule Suc.IH [OF len])
    also have "drop n ?ps1 = ?p # drop (Suc n) ps"
      using n by (simp add: Cons_nth_drop_Suc [symmetric])
    finally show ?thesis
      using False by (simp add: tk)
  qed
qed

lemma drain_loop_filter:
  "n \<le> length ps \<Longrightarrow>
   drain_loop n ps =
     Inr (filter (\<lambda>p. \<not> alpha p \<le> 0)
            (map (\<lambda>p. update (p\<lparr>alpha := alpha p - 0.01\<rparr>)) (take n ps)) @ drop n ps)"
proof (induction n arbitrary: ps)
  case 0
  then show ?case by simp
next
  case (Suc n)
  then have n: "n < length ps" by simp
  let ?q = "update ((ps ! n)\<lparr>alpha := alpha (ps ! n) - 0.01\<rparr>)"
  let ?ps2 = "ps[n := ?q]"
  have tk: "take (Suc n) ps = take n ps @ [ps ! n]"
    using n by (simp add: take_Suc_conv_app_nth)
  have step: "drain_loop (Suc n) ps =
      (if alpha ?q \<le> 0 then drain_loop n (splice ?ps2 n) else drain_loop n ?ps2)"
    using n by (simp add: Let_def)
  show ?case
  proof (cases "alpha ?q \<le> 0")
    case True
    have len: "n \<le> length (splice ?ps2 n)"
      using n by (simp add: splice_def)
    have "drain_loop (Suc n) ps = drain_loop n (splice ?ps2 n)"
      using step True by simp
    also have "\<dots> = Inr (filter (\<lambda>p. \<not> alpha p \<le> 0)
            (map (\<lambda>p. update (p\<lparr>alpha := alpha p - 0.01\<rparr>)) (take n (splice ?ps2 n)))
               @ drop n (splice ?ps2 n))"
      by (rule Suc.IH [OF len])
    also have "take n (splice ?ps2 n) = take n ps"
      using n by (simp add: splice_def)
    also have "drop n (splice ?ps2 n) = drop (Suc n) ps"
      using n by (simp add: splice_def)
    finally show ?thesis
      using True by (simp add: tk)
  next
    case False
    have len: "n \<le> length ?ps2"
      using n by simp
    have "drain_loop (Suc n) ps = drain_loop n ?ps2"
      using step False by simp
    also have "\<dots> = Inr (filter (\<lambda>p. \<not> alpha p \<le> 0)
            (map (\<lambda>p. update (p\<lparr>alpha := alpha p - 0.01\<rparr>)) (take n ?ps2)) @ drop n ?ps2)"
      by (rule Suc.IH [OF len])
    also have "drop n ?ps2 = ?q # drop (Suc n) ps"
      using n by (simp add: Cons_nth_drop_Suc [symmetric])
    finally show ?thesis
      using False by (simp add: tk)
  qed
qed

text \<open>What one frame leaves of a list of particles, in each mode.\<close>

lemma animateParticles_active:
  "heartActive st \<Longrightarrow>
   animateParticles st =
     Inr ((ambient_spawn st)\<lparr>particles :=
        filter (\<lambda>p. \<not> (alpha p \<le> 0 \<or> size_p p \<le> 0.1))
          (map update (particles (ambient_spawn st)))\<rparr>)"
  by (simp add: animateParticles_def Let_def active_loop_filter)

lemma animateParticles_drain:
  "\<not> heartActive st \<Longrightarrow>
   animateParticles st =
     Inr (st\<lparr>particles :=
        filter (\<lambda>p. \<not> alpha p \<le> 0)
          (map (\<lambda>p. update (p\<lparr>alpha := alpha p - 0.01\<rparr>)) (particles st))\<rparr>)"
  by (simp add: animateParticles_def drain_loop_filter)

lemma alpha_update: "alpha (update p) = alpha p - 0.005"
  by (simp add: update_def Let_def)

lemma size_update: "size_p (update p) = size_p p * 0.995"
  by (simp add: update_def Let_def)

section \<open>The invariant of the reachable states\<close>

lemma shrink_bound: "(0.1::real) < 0.5 * 0.995 ^ 200"
proof -
  have ten: "(0.95::real) \<le> 0.995 ^ 10"
    by (simp add: power_divide)
  have "(0.25::real) \<le> 0.95 ^ 20"
    by (simp add: power_divide)
  also have "\<dots> \<le> (0.995 ^ 10) ^ 20"
    using ten by (intro power_mono) simp_all
  also have "\<dots> = 0.995 ^ 200"
    by (simp add: power_mult [symmetric])
  finally show ?thesis by simp
qed

lemma Particle_fst:
  "fst (Particle x0 y0 c r) =
     \<lparr>x = x0, y = y0, size_p = shd r * 1.5 + 0.5, color = c, alpha = 1,
      speed = shd (stl r) * 0.4 + 0.1,
      velocity = \<lparr>x = cos (shd (stl (stl r)) * pi * 2) * (shd (stl r) * 0.4 + 0.1) * 2,
                  y = sin (shd (stl (stl r)) * pi * 2) * (shd (stl r) * 0.4 + 0.1) * 2\<rparr>,
      gravity = 0.003, drag = 0.99\<rparr>"
  by (simp add: Particle_def Math_random_def Let_def)

lemma Particle_snd: "snd (Particle x0 y0 c r) = stl (stl (stl r))"
  by (simp add: Particle_def Math_random_def Let_def)

lemma aged_Particle: "0 \<le> shd r \<Longrightarrow> aged (fst (Particle x0 y0 c r))"
  unfolding aged_def by (rule exI [of _ 0]) (simp add: Particle_fst)

lemma aged_step:
  assumes "aged p" and a: "alpha q \<le> alpha p - 0.005" and s: "size_p q = size_p p * 0.995"
  shows "aged q"
proof -
  from \<open>aged p\<close> obtain k :: nat
    where k: "alpha p \<le> 1 - real k / 200" "0.5 * 0.995 ^ k \<le> size_p p"
    unfolding aged_def by blast
  have "alpha q \<le> 1 - real (Suc k) / 200"
    using k(1) a by (simp add: field_simps)
  moreover have "0.5 * 0.995 ^ Suc k \<le> size_p q"
    using k(2) s by simp
  ultimately show ?thesis
    unfolding aged_def by blast
qed

lemma aged_update: "aged p \<Longrightarrow> aged (update p)"
  by (erule aged_step) (simp_all add: alpha_update size_update)

lemma aged_drain: "aged p \<Longrightarrow> aged (update (p\<lparr>alpha := alpha p - 0.01\<rparr>))"
  by (erule aged_step) (simp_all add: alpha_update size_update)

lemma aged_alpha_le: "aged p \<Longrightarrow> alpha p \<le> 1"
proof -
  assume "aged p"
  then obtain k :: nat where "alpha p \<le> 1 - real k / 200"
    unfolding aged_def by blast
  moreover have "0 \<le> real k / 200" by simp
  ultimately show ?thesis by linarith
qed

lemma aged_size_pos: "aged p \<Longrightarrow> 0 < size_p p"
proof -
  assume "aged p"
  then obtain k :: nat where "0.5 * 0.995 ^ k \<le> size_p p"
    unfolding aged_def by blast
  moreover have "(0::real) < 0.5 * 0.995 ^ k" by simp
  ultimately show ?thesis by linarith
qed

lemma aged_live:
  assumes "aged p" and "0 < alpha p"
  shows "0.1 < size_p p"
proof -
  from \<open>aged p\<close> obtain k :: nat
    where k: "alpha p \<le> 1 - real k / 200" "0.5 * 0.995 ^ k \<le> size_p p"
    unfolding aged_def by blast
  from k(1) \<open>0 < alpha p\<close> have "real k < 200" by simp
  then have "k \<le> 200" by simp
  then have "(0.995::real) ^ 200 \<le> 0.995 ^ k"
    by (intro power_decreasing) simp_all
  with shrink_bound k(2) show ?thesis by linarith
qed

lemma ambient_spawn_eq:
  "ambient_spawn st =
     (if shd (rng st) < 0.6 then
        st\<lparr>particles := particles st @
              [fst (Particle (x (heartCenter st)) (y (heartCenter st))
                 (if rng st !! 1 < 0.9 then ''rgba(255, 107, 157, 1)''
                  else ''rgba(255, 215, 0, 1)'') (sdrop 2 (rng st)))],
           rng := sdrop 5 (rng st)\<rparr>
      else st\<lparr>rng := stl (rng st)\<rparr>)"
  by (simp add: ambient_spawn_def Math_random_def Let_def case_prod_beta Particle_snd
      eval_nat_numeral)

lemma burst_loop_eq:
  "burst_loop n st =
     st\<lparr>particles := particles st @
           map (\<lambda>i. fst (Particle (x (heartCenter st)) (y (heartCenter st))
                  (if rng st !! (4 * i) < 0.7 then ''rgba(255, 107, 157, 1)''
                   else ''rgba(255, 215, 0, 1)'') (sdrop (4 * i + 1) (rng st)))) [0..<n],
        rng := sdrop (4 * n) (rng st)\<rparr>"
proof (induction n arbitrary: st)
  case 0
  then show ?case by simp
next
  case (Suc n)
  let ?f = "\<lambda>r i. fst (Particle (x (heartCenter st)) (y (heartCenter st))
                  (if r !! (4 * i) < 0.7 then ''rgba(255, 107, 157, 1)''
                   else ''rgba(255, 215, 0, 1)'') (sdrop (4 * i + 1) r))"
  let ?st1 = "st\<lparr>particles := particles st @ [?f (rng st) 0], rng := sdrop 4 (rng st)\<rparr>"
  have shift: "?f (sdrop 4 (rng st)) i = ?f (rng st) (Suc i)" for i
  proof -
    have "4 + (4 * i + 1) = 4 * Suc i + 1" by simp
    then have "sdrop (4 * i + 1) (sdrop 4 (rng st)) = sdrop (4 * Suc i + 1) (rng st)"
      by (simp only: sdrop_add)
    moreover have "sdrop 4 (rng st) !! (4 * i) = rng st !! (4 * Suc i)"
      by (simp add: sdrop_snth)
    ultimately show ?thesis by (simp only:)
  qed
  have more: "sdrop (4 * n) (sdrop 4 (rng st)) = sdrop (4 * Suc n) (rng st)"
    by (simp del: sdrop.simps)
  have "burst_loop (Suc n) st = burst_loop n ?st1"
    by (simp add: Math_random_def Let_def case_prod_beta Particle_snd eval_nat_numeral)
  also have "\<dots> = ?st1\<lparr>particles := particles ?st1 @ map (?f (sdrop 4 (rng st))) [0..<n],
                        rng := sdrop (4 * n) (sdrop 4 (rng st))\<rparr>"
    using Suc.IH [of ?st1] by (simp del: sdrop.simps sdrop_add)
  also have "\<dots> = st\<lparr>particles := particles st @ map (?f (rng st)) [0..<Suc n],
                      rng := sdrop (4 * Suc n) (rng st)\<rparr>"
    unfolding shift more by (simp add: map_upt_Suc del: upt_Suc sdrop.simps)
  finally show ?case .
qed

lemma draws_sdrop:
  assumes "\<forall>u \<in> sset r. 0 \<le> u \<and> u < 1"
  shows "\<forall>u \<in> sset (sdrop n r). 0 \<le> u \<and> u < (1::real)"
proof
  fix u
  assume "u \<in> sset (sdrop n r)"
  then obtain m where "u = sdrop n r !! m"
    by (auto simp: sset_range)
  then have "u \<in> sset r"
    by (simp add: sdrop_snth)
  with assms show "0 \<le> u \<and> u < 1" by blast
qed

lemma draws_snth: "\<forall>u \<in> sset r. 0 \<le> u \<and> u < 1 \<Longrightarrow> 0 \<le> r !! n \<and> r !! n < (1::real)"
  using snth_sset [of r n] by blast

lemma aged_Particle_sdrop:
  "\<forall>u \<in> sset r. 0 \<le> u \<and> u < 1 \<Longrightarrow> aged (fst (Particle x0 y0 c (sdrop n r)))"
  by (rule aged_Particle) (simp add: draws_snth)

lemma ambient_spawn_inv:
  assumes r: "\<forall>u \<in> sset (rng st). 0 \<le> u \<and> u < 1" and ps: "\<forall>p \<in> set (particles st). aged p"
  shows "(\<forall>u \<in> sset (rng (ambient_spawn st)). 0 \<le> u \<and> u < 1) \<and>
         (\<forall>p \<in> set (particles (ambient_spawn st)). aged p)"
proof (cases "shd (rng st) < 0.6")
  case True
  then show ?thesis
    using ps draws_sdrop [OF r, of 5] aged_Particle_sdrop [OF r]
    by (simp add: ambient_spawn_eq)
next
  case False
  then show ?thesis
    using ps draws_sdrop [OF r, of 1] by (simp add: ambient_spawn_eq)
qed

lemma burst_loop_inv:
  assumes r: "\<forall>u \<in> sset (rng st). 0 \<le> u \<and> u < 1" and ps: "\<forall>p \<in> set (particles st). aged p"
  shows "(\<forall>u \<in> sset (rng (burst_loop n st)). 0 \<le> u \<and> u < 1) \<and>
         (\<forall>p \<in> set (particles (burst_loop n st)). aged p)"
proof -
  have "aged p" if "p \<in> set (particles (burst_loop n st))" for p
    using that ps aged_Particle_sdrop [OF r]
    by (subst (asm) burst_loop_eq) (auto simp del: sdrop.simps)
  moreover have "\<forall>u \<in> sset (rng (burst_loop n st)). 0 \<le> u \<and> u < 1"
    using draws_sdrop [OF r, of "4 * n"] by (subst burst_loop_eq) simp
  ultimately show ?thesis by blast
qed

lemma reachable_inv:
  "reachable st \<Longrightarrow>
     (\<forall>u \<in> sset (rng st). 0 \<le> u \<and> u < 1) \<and> (\<forall>p \<in> set (particles st). aged p)"
proof (induction rule: reachable.induct)
  case (reach_init r)
  then show ?case by (simp add: init_def)
next
  case (reach_frame st st')
  show ?case
  proof (cases "heartActive st")
    case True
    have sp: "(\<forall>u \<in> sset (rng (ambient_spawn st)). 0 \<le> u \<and> u < 1)"
      "(\<forall>p \<in> set (particles (ambient_spawn st)). aged p)"
      using ambient_spawn_inv [of st] reach_frame.IH by blast+
    have st': "st' = (ambient_spawn st)\<lparr>particles :=
        filter (\<lambda>p. \<not> (alpha p \<le> 0 \<or> size_p p \<le> 0.1))
          (map update (particles (ambient_spawn st)))\<rparr>"
      using reach_frame.hyps(2) True by (simp add: animateParticles_active)
    have "aged q" if "q \<in> set (particles st')" for q
    proof -
      from that obtain p where "p \<in> set (particles (ambient_spawn st))" "q = update p"
        unfolding st' by auto
      with sp(2) show ?thesis by (simp add: aged_update)
    qed
    moreover have "rng st' = rng (ambient_spawn st)"
      unfolding st' by simp
    ultimately show ?thesis using sp(1) by simp
  next
    case False
    have st': "st' = st\<lparr>particles :=
        filter (\<lambda>p. \<not> alpha p \<le> 0)
          (map (\<lambda>p. update (p\<lparr>alpha := alpha p - 0.01\<rparr>)) (particles st))\<rparr>"
      using reach_frame.hyps(2) False by (simp add: animateParticles_drain)
    have "aged q" if "q \<in> set (particles st')" for q
    proof -
      from that obtain p
        where "p \<in> set (particles st)" "q = update (p\<lparr>alpha := alpha p - 0.01\<rparr>)"
        unfolding st' by auto
      with reach_frame.IH show ?thesis by (blast intro: aged_drain)
    qed
    moreover have "rng st' = rng st"
      unfolding st' by simp
    ultimately show ?thesis using reach_frame.IH by simp
  qed
next
  case (reach_resize st heartRect)
  then show ?case by (simp add: resizeCanvas_def Let_def)
next
  case (reach_click st heartRect)
  show ?case
  proof (cases "heartActive st")
    case True
    with reach_click.IH show ?thesis by (simp add: activateHeart_def)
  next
    case False
    have "(\<forall>u \<in> sset (rng (resizeCanvas heartRect (st\<lparr>heartActive := True\<rparr>))). 0 \<le> u \<and> u < 1)"
      "(\<forall>p \<in> set (particles (resizeCanvas heartRect (st\<lparr>heartActive := True\<rparr>))). aged p)"
      using reach_click.IH by (simp_all add: resizeCanvas_def Let_def)
    from burst_loop_inv [OF this, of 80] False show ?thesis
      by (simp add: activateHeart_def)
  qed
qed

section \<open>The concrete run\<close>

lemma Particle_half:
  "fst (Particle 120 70 ''rgba(255, 107, 157, 1)'' (sconst (1 / 2))) = burst0"
  by (simp add: Particle_fst burst0_def)

lemma lit0_eq:
  "lit0 = \<lparr>heartCenter = \<lparr>x = 120, y = 70\<rparr>, particles = replicate 80 burst0,
           heartActive = True, rng = sconst (1 / 2)\<rparr>"
  by (simp add: lit0_def activateHeart_def init_def resizeCanvas_def heartRect0_def Let_def
      burst_loop_eq Particle_half map_replicate_trivial del: sdrop.simps)

lemma off0_eq:
  "off0 = \<lparr>heartCenter = \<lparr>x = 120, y = 70\<rparr>, particles = replicate 80 burst0,
           heartActive = False, rng = sconst (1 / 2)\<rparr>"
  by (simp add: off0_def lit0_eq activateHeart_def)

lemma reachable_lit0: "reachable lit0"
  unfolding lit0_def by (intro reach_click reach_init) simp

lemma reachable_off0: "reachable off0"
  unfolding off0_def by (intro reach_click reachable_lit0)

lemma frame_off0:
  "animateParticles off0 =
     Inr (off0\<lparr>particles := replicate 80 (update (burst0\<lparr>alpha := 0.99\<rparr>))\<rparr>)"
  by (simp add: animateParticles_drain off0_eq alpha_update burst0_def)


lemma frame_lit0:
  "animateParticles lit0 =
     Inr (lit0\<lparr>particles := replicate 80 (update burst0) @ [update burst0]\<rparr>)"
  by (simp add: animateParticles_active ambient_spawn_eq lit0_eq Particle_half
      alpha_update size_update burst0_def)

section \<open>Frames in a row with the heart inactive\<close>

lemma drain_frames:
  assumes "\<not> heartActive st" and "\<forall>p \<in> set (particles st). alpha p \<le> a"
  shows "\<exists>st'. frames n st = Inr st' \<and> \<not> heartActive st' \<and>
           (\<forall>p \<in> set (particles st'). alpha p \<le> a - 0.015 * real n \<and> (0 < n \<longrightarrow> 0 < alpha p))"
  using assms
proof (induction n arbitrary: st a)
  case 0
  then show ?case by simp
next
  case (Suc n)
  let ?st1 = "st\<lparr>particles := filter (\<lambda>p. \<not> alpha p \<le> 0)
      (map (\<lambda>p. update (p\<lparr>alpha := alpha p - 0.01\<rparr>)) (particles st))\<rparr>"
  have fr: "animateParticles st = Inr ?st1"
    using Suc.prems(1) by (rule animateParticles_drain)
  have off1: "\<not> heartActive ?st1"
    using Suc.prems(1) by simp
  have b1: "\<forall>p \<in> set (particles ?st1). alpha p \<le> a - 0.015"
    using Suc.prems(2) by (auto simp: alpha_update)
  have pos1: "\<forall>p \<in> set (particles ?st1). 0 < alpha p"
    by auto
  from Suc.IH [OF off1 b1] obtain st'
    where st': "frames n ?st1 = Inr st'" "\<not> heartActive st'"
      and b: "\<forall>p \<in> set (particles st'). alpha p \<le> a - 0.015 - 0.015 * real n \<and>
                (0 < n \<longrightarrow> 0 < alpha p)"
    by blast
  have "0 < alpha p" if "p \<in> set (particles st')" for p
  proof (cases n)
    case 0
    with st'(1) have "st' = ?st1" by simp
    with that pos1 show ?thesis by blast
  next
    case (Suc m)
    with b that show ?thesis by simp
  qed
  moreover have "alpha p \<le> a - 0.015 * real (Suc n)" if "p \<in> set (particles st')" for p
  proof -
    from b that have "alpha p \<le> a - 0.015 - 0.015 * real n" by blast
    then show ?thesis by (simp add: field_simps)
  qed
  ultimately show ?case
    using st' fr by auto
qed

section \<open>The claims\<close>

text \<open>
  C1. Immediately after a frame, every particle still in the collection has opacity
  above 0 and radius above 0.1, in active and in drain mode: the frame keeps exactly
  the updated particles with both properties. The drain loop tests the opacity only;
  in every state the program can reach, a particle whose opacity is still positive
  has a radius above 0.1, so the test on the radius would remove nothing there.
\<close>

theorem frame_keeps_exactly_the_live:
  assumes "reachable st"
  shows "\<exists>st'. animateParticles st = Inr st' \<and>
           (\<forall>p \<in> set (particles st'). 0 < alpha p \<and> 0.1 < size_p p) \<and>
           particles st' =
             filter (\<lambda>p. 0 < alpha p \<and> 0.1 < size_p p)
               (if heartActive st then map update (particles (ambient_spawn st))
                else map (\<lambda>p. update (p\<lparr>alpha := alpha p - 0.01\<rparr>)) (particles st))"
proof (cases "heartActive st")
  case True
  then show ?thesis
    by (simp add: animateParticles_active not_le)
next
  case False
  let ?ps = "map (\<lambda>p. update (p\<lparr>alpha := alpha p - 0.01\<rparr>)) (particles st)"
  have ag: "aged q" if "q \<in> set ?ps" for q
  proof -
    from that obtain p
      where "p \<in> set (particles st)" "q = update (p\<lparr>alpha := alpha p - 0.01\<rparr>)"
      by auto
    with reachable_inv [OF assms] show ?thesis by (blast intro: aged_drain)
  qed
  have "filter (\<lambda>p. \<not> alpha p \<le> 0) ?ps = filter (\<lambda>p. 0 < alpha p \<and> 0.1 < size_p p) ?ps"
  proof (rule filter_cong [OF refl])
    fix q assume "q \<in> set ?ps"
    then have "aged q" by (rule ag)
    then show "(\<not> alpha q \<le> 0) = (0 < alpha q \<and> 0.1 < size_p q)"
      using aged_live [of q] by auto
  qed
  then show ?thesis
    using False by (simp add: animateParticles_drain)
qed

theorem frame_keeps_exactly_the_live_witness:
  "reachable off0 \<and> \<not> heartActive off0 \<and> \<not> isl (animateParticles off0) \<and>
   map alpha (particles (projr (animateParticles off0))) = replicate 80 0.985 \<and>
   map size_p (particles (projr (animateParticles off0))) = replicate 80 1.24375 \<and>
   list_all (\<lambda>p. 0 < alpha p \<and> 0.1 < size_p p) (particles (projr (animateParticles off0)))"
proof -
  from frame_keeps_exactly_the_live [OF reachable_off0]
  obtain st' where st': "animateParticles off0 = Inr st'"
    and live: "\<forall>p \<in> set (particles st'). 0 < alpha p \<and> 0.1 < size_p p"
    by blast
  have "projr (animateParticles off0) = st'"
    by (simp only: st' sum.sel)
  with live
  have "list_all (\<lambda>p. 0 < alpha p \<and> 0.1 < size_p p) (particles (projr (animateParticles off0)))"
    by (simp only: list_all_iff)
  moreover have "\<not> heartActive off0"
    by (simp add: off0_eq)
  moreover have "\<not> isl (animateParticles off0)"
    by (simp add: frame_off0)
  moreover have "map alpha (particles (projr (animateParticles off0))) = replicate 80 0.985"
    by (simp add: frame_off0 alpha_update)
  moreover have "map size_p (particles (projr (animateParticles off0))) = replicate 80 1.24375"
    by (simp add: frame_off0 size_update burst0_def)
  ultimately show ?thesis
    using reachable_off0 by blast
qed

text \<open>
  C2, as amended. In drain mode a frame takes exactly 0.015 from the opacity of every
  particle, the 0.01 of the drain loop and then the 0.005 of \<open>update\<close> (which is the
  whole decrease in active mode), and keeps the particles whose opacity is still
  positive. The sentence as claimed, with 0.01, fails on the state after the heart was
  switched on and off.
\<close>

theorem drain_frame_fades_by_0015:
  assumes "\<not> heartActive st"
  shows "\<exists>st'. animateParticles st = Inr st' \<and>
           map alpha (particles st') =
             filter (\<lambda>a. 0 < a) (map (\<lambda>p. alpha p - 0.015) (particles st))"
proof -
  have "map alpha (filter (\<lambda>p. \<not> alpha p \<le> 0)
          (map (\<lambda>p. update (p\<lparr>alpha := alpha p - 0.01\<rparr>)) ps)) =
        filter (\<lambda>a. 0 < a) (map (\<lambda>p. alpha p - 0.015) ps)" for ps
    by (induction ps) (simp_all add: alpha_update not_le)
  then show ?thesis
    using assms by (simp add: animateParticles_drain)
qed

theorem drain_frame_fades_by_0015_witness:
  "\<not> heartActive off0 \<and> \<not> isl (animateParticles off0) \<and>
   map alpha (particles off0) = replicate 80 1 \<and>
   map alpha (particles (projr (animateParticles off0))) =
     filter (\<lambda>a. 0 < a) (map (\<lambda>p. alpha p - 0.015) (particles off0)) \<and>
   filter (\<lambda>a. 0 < a) (map (\<lambda>p. alpha p - 0.015) (particles off0)) = replicate 80 0.985"
proof -
  have off: "\<not> heartActive off0"
    by (simp add: off0_eq)
  from drain_frame_fades_by_0015 [OF off]
  obtain st' where st': "animateParticles off0 = Inr st'"
    and fade: "map alpha (particles st') =
      filter (\<lambda>a. 0 < a) (map (\<lambda>p. alpha p - 0.015) (particles off0))"
    by blast
  have "projr (animateParticles off0) = st'"
    by (simp only: st' sum.sel)
  with fade have "map alpha (particles (projr (animateParticles off0))) =
     filter (\<lambda>a. 0 < a) (map (\<lambda>p. alpha p - 0.015) (particles off0))"
    by (simp only:)
  moreover have "\<not> isl (animateParticles off0)"
    by (simp add: frame_off0)
  moreover have "map alpha (particles off0) = replicate 80 1"
    by (simp add: off0_eq burst0_def)
  moreover have "filter (\<lambda>a. 0 < a) (map (\<lambda>p. alpha p - 0.015) (particles off0)) =
      replicate 80 0.985"
    by (simp add: off0_eq burst0_def)
  ultimately show ?thesis
    using off by blast
qed

theorem drain_frame_fades_by_001_counterexample:
  "\<not> heartActive off0 \<and> \<not> isl (animateParticles off0) \<and>
   map alpha (particles off0) = replicate 80 1 \<and>
   map alpha (particles (projr (animateParticles off0))) = replicate 80 0.985 \<and>
   map alpha (particles (projr (animateParticles off0))) \<noteq>
     map (\<lambda>p. alpha p - 0.01) (particles off0)"
proof -
  have "\<not> heartActive off0"
    by (simp add: off0_eq)
  moreover have "\<not> isl (animateParticles off0)"
    by (simp add: frame_off0)
  moreover have "map alpha (particles off0) = replicate 80 1"
    by (simp add: off0_eq burst0_def)
  moreover have after: "map alpha (particles (projr (animateParticles off0))) = replicate 80 0.985"
    by (simp add: frame_off0 alpha_update)
  moreover have "map (\<lambda>p. alpha p - 0.01) (particles off0) = replicate 80 0.99"
    by (simp add: off0_eq burst0_def)
  then have "map alpha (particles (projr (animateParticles off0))) \<noteq>
     map (\<lambda>p. alpha p - 0.01) (particles off0)"
    unfolding after by simp
  ultimately show ?thesis by blast
qed

text \<open>
  C3. \<open>update\<close> is the five assignments in this order: the velocity times the drag, in
  both components; the gravity added to the vertical velocity; the velocity added to the
  position; 0.005 taken from the opacity; the size times 0.995. So the gravity is not
  damped in the frame that adds it, and the position moves by the new velocity. A frame
  runs \<open>update\<close> once on every particle of the collection (in drain mode after its own
  0.01 off the opacity) before it removes any.
\<close>

theorem update_in_order:
  "update =
     (\<lambda>p. p\<lparr>size_p := size_p p * 0.995\<rparr>) \<circ>
     (\<lambda>p. p\<lparr>alpha := alpha p - 0.005\<rparr>) \<circ>
     (\<lambda>p. p\<lparr>x := x p + x (velocity p), y := y p + y (velocity p)\<rparr>) \<circ>
     (\<lambda>p. p\<lparr>velocity := (velocity p)\<lparr>y := y (velocity p) + gravity p\<rparr>\<rparr>) \<circ>
     (\<lambda>p. p\<lparr>velocity := \<lparr>x = x (velocity p) * drag p, y = y (velocity p) * drag p\<rparr>\<rparr>)
   \<and> velocity (update p) =
        \<lparr>x = x (velocity p) * drag p, y = y (velocity p) * drag p + gravity p\<rparr>
   \<and> x (update p) = x p + x (velocity p) * drag p
   \<and> y (update p) = y p + (y (velocity p) * drag p + gravity p)
   \<and> alpha (update p) = alpha p - 0.005
   \<and> size_p (update p) = size_p p * 0.995
   \<and> animateParticles st =
        Inr ((if heartActive st then ambient_spawn st else st)\<lparr>particles :=
          filter (\<lambda>q. \<not> (alpha q \<le> 0 \<or> heartActive st \<and> size_p q \<le> 0.1))
            (map update
              (if heartActive st then particles (ambient_spawn st)
               else map (\<lambda>p. p\<lparr>alpha := alpha p - 0.01\<rparr>) (particles st)))\<rparr>)"
proof -
  have "update q =
     ((\<lambda>p. p\<lparr>size_p := size_p p * 0.995\<rparr>) \<circ>
     (\<lambda>p. p\<lparr>alpha := alpha p - 0.005\<rparr>) \<circ>
     (\<lambda>p. p\<lparr>x := x p + x (velocity p), y := y p + y (velocity p)\<rparr>) \<circ>
     (\<lambda>p. p\<lparr>velocity := (velocity p)\<lparr>y := y (velocity p) + gravity p\<rparr>\<rparr>) \<circ>
     (\<lambda>p. p\<lparr>velocity := \<lparr>x = x (velocity p) * drag p, y = y (velocity p) * drag p\<rparr>\<rparr>)) q"
    for q
  proof (cases q)
    case (fields x0 y0 s0 c0 a0 sp0 v0 g0 d0)
    then show ?thesis
      by (cases v0) (simp add: update_def Let_def)
  qed
  then have comp: "update =
     (\<lambda>p. p\<lparr>size_p := size_p p * 0.995\<rparr>) \<circ>
     (\<lambda>p. p\<lparr>alpha := alpha p - 0.005\<rparr>) \<circ>
     (\<lambda>p. p\<lparr>x := x p + x (velocity p), y := y p + y (velocity p)\<rparr>) \<circ>
     (\<lambda>p. p\<lparr>velocity := (velocity p)\<lparr>y := y (velocity p) + gravity p\<rparr>\<rparr>) \<circ>
     (\<lambda>p. p\<lparr>velocity := \<lparr>x = x (velocity p) * drag p, y = y (velocity p) * drag p\<rparr>\<rparr>)"
    by (rule ext)
  have fields: "velocity (update p) =
        \<lparr>x = x (velocity p) * drag p, y = y (velocity p) * drag p + gravity p\<rparr>"
    "x (update p) = x p + x (velocity p) * drag p"
    "y (update p) = y p + (y (velocity p) * drag p + gravity p)"
    "alpha (update p) = alpha p - 0.005"
    "size_p (update p) = size_p p * 0.995"
    by (cases p; cases "velocity p"; simp add: update_def Let_def)+
  have frame: "animateParticles st =
        Inr ((if heartActive st then ambient_spawn st else st)\<lparr>particles :=
          filter (\<lambda>q. \<not> (alpha q \<le> 0 \<or> heartActive st \<and> size_p q \<le> 0.1))
            (map update
              (if heartActive st then particles (ambient_spawn st)
               else map (\<lambda>p. p\<lparr>alpha := alpha p - 0.01\<rparr>) (particles st)))\<rparr>)"
    by (cases "heartActive st")
      (simp_all add: animateParticles_active animateParticles_drain comp_def)
  from comp fields frame show ?thesis by blast
qed

text \<open>
  C4, as amended. With the heart inactive, starting from a reachable state, no frame
  makes the collection longer; the collection is empty after at most 67 frames (a fresh
  particle has opacity 1 and loses 0.015 in each); and an empty collection stays empty.
  The count need not fall in every frame: the frame after switching the heart on and
  off keeps all 80 particles of the burst.
\<close>

theorem drain_empties_in_67_frames:
  assumes "reachable st" and "\<not> heartActive st"
  shows "\<exists>st1 st2. frames n st = Inr st1 \<and> animateParticles st1 = Inr st2 \<and>
           \<not> heartActive st1 \<and> \<not> heartActive st2 \<and>
           length (particles st2) \<le> length (particles st1) \<and>
           (particles st1 = [] \<longrightarrow> particles st2 = []) \<and>
           (67 \<le> n \<longrightarrow> particles st1 = [])"
proof -
  have "\<forall>p \<in> set (particles st). alpha p \<le> 1"
    using reachable_inv [OF assms(1)] by (blast intro: aged_alpha_le)
  from drain_frames [OF assms(2) this, of n] obtain st1
    where st1: "frames n st = Inr st1" "\<not> heartActive st1"
      and b: "\<forall>p \<in> set (particles st1). alpha p \<le> 1 - 0.015 * real n \<and> (0 < n \<longrightarrow> 0 < alpha p)"
    by blast
  let ?st2 = "st1\<lparr>particles := filter (\<lambda>p. \<not> alpha p \<le> 0)
      (map (\<lambda>p. update (p\<lparr>alpha := alpha p - 0.01\<rparr>)) (particles st1))\<rparr>"
  have st2: "animateParticles st1 = Inr ?st2"
    using st1(2) by (rule animateParticles_drain)
  have len: "length (particles ?st2) \<le> length (particles st1)"
    using length_filter_le [of _ "map (\<lambda>p. update (p\<lparr>alpha := alpha p - 0.01\<rparr>)) (particles st1)"]
    by simp
  have empty: "particles st1 = []" if "67 \<le> n"
  proof (rule ccontr)
    assume "particles st1 \<noteq> []"
    then obtain p where p: "p \<in> set (particles st1)"
      by (cases "particles st1") auto
    from that have "67 \<le> real n" by simp
    then have "1 - 0.015 * real n < 0" by simp
    moreover from b p that have "alpha p \<le> 1 - 0.015 * real n" "0 < alpha p"
      by auto
    ultimately show False by linarith
  qed
  show ?thesis
    using st1 st2 len empty by auto
qed

theorem drain_empties_in_67_frames_witness:
  "reachable off0 \<and> \<not> heartActive off0 \<and> length (particles off0) = 80 \<and>
   \<not> isl (frames 67 off0) \<and> particles (projr (frames 67 off0)) = []"
proof -
  have off: "\<not> heartActive off0" and len: "length (particles off0) = 80"
    by (simp_all add: off0_eq)
  from drain_empties_in_67_frames [OF reachable_off0 off, of 67]
  obtain st1 where "frames 67 off0 = Inr st1" "particles st1 = []"
    by auto
  then show ?thesis
    using reachable_off0 off len by simp
qed

theorem drain_strictly_decreases_counterexample:
  "\<not> heartActive off0 \<and> particles off0 \<noteq> [] \<and> \<not> isl (animateParticles off0) \<and>
   length (particles off0) = 80 \<and>
   length (particles (projr (animateParticles off0))) = 80 \<and>
   \<not> length (particles (projr (animateParticles off0))) < length (particles off0)"
  by (simp add: frame_off0) (simp add: off0_eq)

text \<open>
  C5. A click while the heart is inactive sets the flag, recomputes the heart centre
  from the heart container, and appends 80 particles to the collection, there and then:
  the particles of before stay as they are, in place; the \<open>i\<close>-th new one is built by
  the constructor at the heart centre just recomputed, and takes four draws of its
  own, the first of which picks its colour, rose below 0.7 and gold otherwise.
\<close>

theorem activation_bursts_80:
  assumes "\<not> heartActive st"
  shows "heartActive (activateHeart r st) \<and>
         heartCenter (activateHeart r st) =
           \<lparr>x = left r + width r / 2, y = top_r r + height r / 2\<rparr> \<and>
         length (particles (activateHeart r st)) = length (particles st) + 80 \<and>
         take (length (particles st)) (particles (activateHeart r st)) = particles st \<and>
         drop (length (particles st)) (particles (activateHeart r st)) =
           map (\<lambda>i. fst (Particle (left r + width r / 2) (top_r r + height r / 2)
                  (if rng st !! (4 * i) < 0.7 then ''rgba(255, 107, 157, 1)''
                   else ''rgba(255, 215, 0, 1)'') (sdrop (4 * i + 1) (rng st)))) [0..<80] \<and>
         list_all (\<lambda>p. x p = x (heartCenter (activateHeart r st)) \<and>
                        y p = y (heartCenter (activateHeart r st)) \<and> alpha p = 1)
           (drop (length (particles st)) (particles (activateHeart r st))) \<and>
         rng (activateHeart r st) = sdrop 320 (rng st)"
proof -
  let ?c = "\<lparr>x = left r + width r / 2, y = top_r r + height r / 2\<rparr>"
  let ?new = "map (\<lambda>i. fst (Particle (left r + width r / 2) (top_r r + height r / 2)
                  (if rng st !! (4 * i) < 0.7 then ''rgba(255, 107, 157, 1)''
                   else ''rgba(255, 215, 0, 1)'') (sdrop (4 * i + 1) (rng st)))) [0..<80]"
  have rs: "resizeCanvas r (st\<lparr>heartActive := True\<rparr>) =
      st\<lparr>heartActive := True, heartCenter := ?c\<rparr>"
    by (cases "heartCenter st") (simp add: resizeCanvas_def Let_def)
  have act: "activateHeart r st =
      st\<lparr>heartActive := True, heartCenter := ?c, particles := particles st @ ?new,
         rng := sdrop 320 (rng st)\<rparr>"
    using assms unfolding activateHeart_def rs
    by (subst burst_loop_eq) (simp del: sdrop.simps upt_Suc)
  have at: "list_all (\<lambda>p. x p = left r + width r / 2 \<and> y p = top_r r + height r / 2 \<and>
      alpha p = 1) ?new"
    unfolding list_all_iff by (auto simp: Particle_fst simp del: upt_Suc)
  show ?thesis
    unfolding act using at by (simp del: upt_Suc sdrop.simps)
qed

theorem activation_bursts_80_witness:
  "\<not> heartActive (init (sconst (1 / 2))) \<and> particles (init (sconst (1 / 2))) = [] \<and>
   heartActive (activateHeart heartRect0 (init (sconst (1 / 2)))) \<and>
   heartCenter (activateHeart heartRect0 (init (sconst (1 / 2)))) = \<lparr>x = 120, y = 70\<rparr> \<and>
   length (particles (activateHeart heartRect0 (init (sconst (1 / 2))))) = 80 \<and>
   particles (activateHeart heartRect0 (init (sconst (1 / 2)))) = replicate 80 burst0"
proof -
  have off: "\<not> heartActive (init (sconst (1 / 2)))"
    and none: "particles (init (sconst (1 / 2))) = []"
    by (simp_all add: init_def)
  from activation_bursts_80 [OF off, of heartRect0]
  have "heartActive (activateHeart heartRect0 (init (sconst (1 / 2))))"
    and "heartCenter (activateHeart heartRect0 (init (sconst (1 / 2)))) =
           \<lparr>x = left heartRect0 + width heartRect0 / 2,
            y = top_r heartRect0 + height heartRect0 / 2\<rparr>"
    and "length (particles (activateHeart heartRect0 (init (sconst (1 / 2))))) =
           length (particles (init (sconst (1 / 2)))) + 80"
    by blast+
  moreover have "particles (activateHeart heartRect0 (init (sconst (1 / 2)))) =
      replicate 80 burst0"
    using lit0_eq by (simp add: lit0_def)
  ultimately show ?thesis
    using off none by (simp add: heartRect0_def)
qed

text \<open>
  C6. The constructor always returns a particle. It stands at the given origin, with
  opacity 1, gravity 0.003 and drag 0.99. Its size, its speed and its direction are the
  images of three successive draws \<open>u\<close> of \<open>Math.random\<close> under \<open>u * 1.5 + 0.5\<close>,
  \<open>u * 0.4 + 0.1\<close> and \<open>u * 2\<pi>\<close>, so that with draws in \<open>[0, 1)\<close> the size lies between
  0.5 and 2, the speed between 0.1 and 0.5 and the direction in \<open>[0, 2\<pi>)\<close>, each as
  uniform as the draw is. The velocity is the unit vector of the direction times twice
  the speed.
\<close>

theorem Particle_constructs:
  assumes "\<forall>u \<in> sset r. 0 \<le> u \<and> u < 1"
  shows "\<exists>p. Particle x0 y0 c r = (p, sdrop 3 r) \<and>
           x p = x0 \<and> y p = y0 \<and> color p = c \<and>
           size_p p = r !! 0 * 1.5 + 0.5 \<and> 0.5 \<le> size_p p \<and> size_p p \<le> 2.0 \<and>
           speed p = r !! 1 * 0.4 + 0.1 \<and> 0.1 \<le> speed p \<and> speed p \<le> 0.5 \<and>
           0 \<le> r !! 2 * pi * 2 \<and> r !! 2 * pi * 2 < 2 * pi \<and>
           velocity p = \<lparr>x = cos (r !! 2 * pi * 2) * speed p * 2,
                          y = sin (r !! 2 * pi * 2) * speed p * 2\<rparr> \<and>
           alpha p = 1.0 \<and> gravity p = 0.003 \<and> drag p = 0.99"
proof -
  have eq: "Particle x0 y0 c r = (fst (Particle x0 y0 c r), sdrop 3 r)"
    by (simp add: prod_eq_iff Particle_snd eval_nat_numeral)
  have idx: "shd r = r !! 0" "shd (stl r) = r !! 1" "shd (stl (stl r)) = r !! 2"
    by (simp_all add: eval_nat_numeral)
  have d0: "0 \<le> r !! 0" "r !! 0 < 1" and d1: "0 \<le> r !! 1" "r !! 1 < 1"
    and d2: "0 \<le> r !! 2" "r !! 2 < 1"
    using draws_snth [OF assms] by blast+
  have dir: "0 \<le> r !! 2 * pi * 2" "r !! 2 * pi * 2 < 2 * pi"
    using d2 pi_gt_zero by (simp_all add: mult_less_cancel_right1)
  let ?p = "fst (Particle x0 y0 c r)"
  have fields: "x ?p = x0" "y ?p = y0" "color ?p = c" "size_p ?p = r !! 0 * 1.5 + 0.5"
    "speed ?p = r !! 1 * 0.4 + 0.1" "alpha ?p = 1.0" "gravity ?p = 0.003" "drag ?p = 0.99"
    "velocity ?p = \<lparr>x = cos (r !! 2 * pi * 2) * speed ?p * 2,
                     y = sin (r !! 2 * pi * 2) * speed ?p * 2\<rparr>"
    unfolding Particle_fst idx by simp_all
  have bounds: "0.5 \<le> size_p ?p" "size_p ?p \<le> 2.0" "0.1 \<le> speed ?p" "speed ?p \<le> 0.5"
    unfolding fields using d0 d1 by simp_all
  show ?thesis
    using eq fields bounds dir by blast
qed

theorem Particle_constructs_witness:
  "Particle 120 70 ''rgba(255, 215, 0, 1)'' (sconst (1 / 2)) =
     (\<lparr>x = 120, y = 70, size_p = 1.25, color = ''rgba(255, 215, 0, 1)'', alpha = 1,
       speed = 0.3, velocity = \<lparr>x = - 0.6, y = 0\<rparr>, gravity = 0.003, drag = 0.99\<rparr>,
      sconst (1 / 2))"
proof -
  have "\<forall>u \<in> sset (sconst (1 / 2 :: real)). 0 \<le> u \<and> u < 1"
    by simp
  from Particle_constructs [OF this, of 120 70 "''rgba(255, 215, 0, 1)''"]
  obtain p where p: "Particle 120 70 ''rgba(255, 215, 0, 1)'' (sconst (1 / 2)) = (p, sdrop 3 (sconst (1 / 2)))"
    and f: "x p = 120" "y p = 70" "color p = ''rgba(255, 215, 0, 1)''"
      "size_p p = sconst (1 / 2) !! 0 * 1.5 + 0.5"
      "speed p = sconst (1 / 2) !! 1 * 0.4 + 0.1"
      "velocity p = \<lparr>x = cos (sconst (1 / 2) !! 2 * pi * 2) * speed p * 2,
                     y = sin (sconst (1 / 2) !! 2 * pi * 2) * speed p * 2\<rparr>"
      "alpha p = 1.0" "gravity p = 0.003" "drag p = 0.99"
    by blast
  have "p = \<lparr>x = 120, y = 70, size_p = 1.25, color = ''rgba(255, 215, 0, 1)'', alpha = 1,
       speed = 0.3, velocity = \<lparr>x = - 0.6, y = 0\<rparr>, gravity = 0.003, drag = 0.99\<rparr>"
    using f by (cases p) simp
  with p show ?thesis by simp
qed



text \<open>
  C8. \<open>resizeCanvas\<close> sets the heart centre to the centre of the rectangle of the heart
  container, left plus half the width and top plus half the height, and leaves the
  particles, the activation flag and the random source alone. For the rectangle at left
  100 and top 50, 40 wide and 40 high, the centre is (120, 70).
\<close>

theorem resizeCanvas_sets_centre:
  "heartCenter (resizeCanvas r st) = \<lparr>x = left r + width r / 2, y = top_r r + height r / 2\<rparr>
   \<and> heartCenter (resizeCanvas \<lparr>left = 100, top_r = 50, width = 40, height = 40\<rparr> st) =
       \<lparr>x = 120, y = 70\<rparr>
   \<and> resizeCanvas r st =
       st\<lparr>heartCenter := \<lparr>x = left r + width r / 2, y = top_r r + height r / 2\<rparr>\<rparr>"
  by (cases "heartCenter st") (simp add: resizeCanvas_def Let_def)

text \<open>
  C9. In every reachable state a frame maps each particle of the collection, the one
  spawned in this frame included, to a particle whose opacity and whose size are no
  larger, and then removes some: what is left of a particle after a frame is never more
  opaque or larger than it was.
\<close>

theorem opacity_and_size_never_grow:
  assumes "reachable st"
  shows "\<exists>st'. animateParticles st = Inr st' \<and>
          (if heartActive st then
             particles st' =
               filter (\<lambda>q. \<not> (alpha q \<le> 0 \<or> size_p q \<le> 0.1))
                 (map update (particles (ambient_spawn st))) \<and>
             (\<forall>p \<in> set (particles (ambient_spawn st)).
                alpha (update p) \<le> alpha p \<and> size_p (update p) \<le> size_p p)
           else
             particles st' =
               filter (\<lambda>q. \<not> alpha q \<le> 0)
                 (map (\<lambda>p. update (p\<lparr>alpha := alpha p - 0.01\<rparr>)) (particles st)) \<and>
             (\<forall>p \<in> set (particles st).
                alpha (update (p\<lparr>alpha := alpha p - 0.01\<rparr>)) \<le> alpha p \<and>
                size_p (update (p\<lparr>alpha := alpha p - 0.01\<rparr>)) \<le> size_p p))"
proof (cases "heartActive st")
  case True
  have "alpha (update p) \<le> alpha p \<and> size_p (update p) \<le> size_p p"
    if "p \<in> set (particles (ambient_spawn st))" for p
  proof -
    have "aged p"
      using that ambient_spawn_inv [of st] reachable_inv [OF assms] by blast
    then have "0 < size_p p" by (rule aged_size_pos)
    then show ?thesis by (simp add: alpha_update size_update)
  qed
  then show ?thesis
    using True by (simp add: animateParticles_active)
next
  case False
  have "alpha (update (p\<lparr>alpha := alpha p - 0.01\<rparr>)) \<le> alpha p \<and>
        size_p (update (p\<lparr>alpha := alpha p - 0.01\<rparr>)) \<le> size_p p"
    if "p \<in> set (particles st)" for p
  proof -
    have "aged p"
      using that reachable_inv [OF assms] by blast
    then have "0 < size_p p" by (rule aged_size_pos)
    then show ?thesis by (simp add: alpha_update size_update)
  qed
  then show ?thesis
    using False by (simp add: animateParticles_drain)
qed

theorem opacity_and_size_never_grow_witness:
  "reachable lit0 \<and> heartActive lit0 \<and> \<not> isl (animateParticles lit0) \<and>
   particles (ambient_spawn lit0) = replicate 80 burst0 @ [burst0] \<and>
   particles (projr (animateParticles lit0)) = replicate 80 (update burst0) @ [update burst0] \<and>
   alpha burst0 = 1 \<and> alpha (update burst0) = 0.995 \<and> alpha (update burst0) \<le> alpha burst0 \<and>
   size_p burst0 = 1.25 \<and> size_p (update burst0) = 1.24375 \<and>
   size_p (update burst0) \<le> size_p burst0"
proof -
  have lit: "heartActive lit0"
    by (simp add: lit0_eq)
  have sp: "particles (ambient_spawn lit0) = replicate 80 burst0 @ [burst0]"
    by (simp add: ambient_spawn_eq lit0_eq Particle_half)
  from opacity_and_size_never_grow [OF reachable_lit0]
  have "\<forall>p \<in> set (particles (ambient_spawn lit0)).
          alpha (update p) \<le> alpha p \<and> size_p (update p) \<le> size_p p"
    using lit by auto
  then have "alpha (update burst0) \<le> alpha burst0 \<and> size_p (update burst0) \<le> size_p burst0"
    unfolding sp by simp
  moreover have "alpha burst0 = 1" "alpha (update burst0) = 0.995"
    "size_p burst0 = 1.25" "size_p (update burst0) = 1.24375"
    by (simp_all add: alpha_update size_update burst0_def)
  ultimately show ?thesis
    using reachable_lit0 lit sp by (simp add: frame_lit0)
qed

text \<open>
  C10. A click while the heart is active only clears the activation flag: the
  particles, the heart centre and the random source are those of before, so the first
  particle fades faster only in the next frame.
\<close>

theorem deactivation_keeps_particles:
  assumes "heartActive st"
  shows "activateHeart r st = st\<lparr>heartActive := False\<rparr> \<and>
         particles (activateHeart r st) = particles st \<and>
         heartCenter (activateHeart r st) = heartCenter st \<and>
         rng (activateHeart r st) = rng st \<and>
         \<not> heartActive (activateHeart r st)"
  using assms by (simp add: activateHeart_def)

theorem deactivation_keeps_particles_witness:
  "heartActive lit0 \<and> particles lit0 = replicate 80 burst0 \<and>
   activateHeart heartRect0 lit0 = lit0\<lparr>heartActive := False\<rparr> \<and>
   particles (activateHeart heartRect0 lit0) = replicate 80 burst0 \<and>
   \<not> heartActive (activateHeart heartRect0 lit0)"
proof -
  have lit: "heartActive lit0"
    by (simp add: lit0_eq)
  have ps: "particles lit0 = replicate 80 burst0"
    by (simp add: lit0_eq)
  from deactivation_keeps_particles [OF lit, of heartRect0] lit ps show ?thesis
    by (simp only:) simp
qed

end
